theory Spec2Isabelle
  imports Main
begin

section \<open>Text\<close>

text \<open>
  Python strings are modelled by Isabelle strings (lists of 8-bit characters). The
  listing of \<^verbatim>\<open>pip list --format=freeze\<close> is ASCII text, and the string methods used
  by \<^verbatim>\<open>req_uninstaller.py\<close> are modelled on that range: \<^verbatim>\<open>str.lower\<close> maps
  \<^verbatim>\<open>A-Z\<close> to \<^verbatim>\<open>a-z\<close>, \<^verbatim>\<open>str.strip\<close> removes the ASCII white space
  characters. The three pictographs of the messages (U+2713, U+2717, U+26A0) are written
  as their UTF-8 bytes.
\<close>

definition isspace :: "char \<Rightarrow> bool" where
  "isspace c = (c \<in> set [CHR 0x09, CHR 0x0A, CHR 0x0B, CHR 0x0C, CHR 0x0D,
                          CHR 0x1C, CHR 0x1D, CHR 0x1E, CHR 0x1F, CHR 0x20])"

text \<open>\<^verbatim>\<open>s.strip()\<close>: leading and trailing white space removed.\<close>

definition strip :: "string \<Rightarrow> string" where
  "strip s = rev (dropWhile isspace (rev (dropWhile isspace s)))"

definition lower_char :: "char \<Rightarrow> char" where
  "lower_char c =
     (if (65::nat) \<le> of_char c \<and> of_char c \<le> (90::nat)
      then char_of (of_char c + (32::nat)) else c)"

text \<open>\<^verbatim>\<open>s.lower()\<close>.\<close>

definition lower :: "string \<Rightarrow> string" where
  "lower s = map lower_char s"

text \<open>\<^verbatim>\<open>s.split('\n')\<close>: never empty, \<^verbatim>\<open>''.split('\n') == ['']\<close>.\<close>

fun split_nl :: "string \<Rightarrow> string list" where
  "split_nl [] = [[]]"
| "split_nl (c # cs) =
     (if c = CHR 0x0A then [] # split_nl cs
      else (case split_nl cs of
              [] \<Rightarrow> [[c]]
            | l # ls \<Rightarrow> (c # l) # ls))"

text \<open>\<^verbatim>\<open>s.startswith(sub)\<close>, used by the two scans below.\<close>

definition startswith :: "string \<Rightarrow> string \<Rightarrow> bool" where
  "startswith s sub = (take (length sub) s = sub)"

text \<open>\<^verbatim>\<open>sub in s\<close>: \<^verbatim>\<open>sub\<close> occurs in \<^verbatim>\<open>s\<close> as a contiguous substring.\<close>

fun in_str :: "string \<Rightarrow> string \<Rightarrow> bool" where
  "in_str sub [] = startswith [] sub"
| "in_str sub (c # cs) = (startswith (c # cs) sub \<or> in_str sub cs)"

text \<open>
  \<^verbatim>\<open>s.split(sep)[0]\<close> for a non-empty separator: the scan of \<^verbatim>\<open>split\<close> goes from
  left to right, so its first piece is the text before the leftmost occurrence of
  \<^verbatim>\<open>sep\<close>, and all of \<^verbatim>\<open>s\<close> when there is none.
\<close>

fun split_first :: "string \<Rightarrow> string \<Rightarrow> string" where
  "split_first sep [] = []"
| "split_first sep (c # cs) =
     (if startswith (c # cs) sep then [] else c # split_first sep cs)"

text \<open>\<^verbatim>\<open>sep.join(xs)\<close>.\<close>

fun join :: "string \<Rightarrow> string list \<Rightarrow> string" where
  "join sep [] = []"
| "join sep [x] = x"
| "join sep (x # y # ys) = x @ sep @ join sep (y # ys)"

text \<open>\<^verbatim>\<open>str(n)\<close> for a non-negative integer, as the f-strings format it.\<close>

fun str_nat :: "nat \<Rightarrow> string" where
  "str_nat n =
     (if n < 10 then [char_of (48 + n)]
      else str_nat (n div 10) @ [char_of (48 + n mod 10)])"

declare str_nat.simps [simp del]

definition check_mark :: string where
  "check_mark = [CHR 0xE2, CHR 0x9C, CHR 0x93]"

definition cross_mark :: string where
  "cross_mark = [CHR 0xE2, CHR 0x9C, CHR 0x97]"

definition warning_sign :: string where
  "warning_sign = [CHR 0xE2, CHR 0x9A, CHR 0xA0]"

section \<open>Parsing the listing\<close>

text \<open>The names the loop of \<^verbatim>\<open>UninstallThread.run\<close> skips (line 115).\<close>

definition protected :: "string list" where
  "protected = [''pip'', ''setuptools'', ''wheel'']"

text \<open>
  Lines 110 to 116: the loop over the lines, with \<^verbatim>\<open>packages\<close> as accumulator.
  \<^verbatim>\<open>
  for line in result.stdout.strip().split('\n'):
      if line and '==' in line:
          pkg_name = line.split('==')[0]
          if pkg_name.lower() not in ['pip', 'setuptools', 'wheel']:
              packages.append(pkg_name)
  \<close>
\<close>

fun parse_lines :: "string list \<Rightarrow> string list \<Rightarrow> string list" where
  "parse_lines [] packages = packages"
| "parse_lines (line # rest) packages =
     (if line \<noteq> [] \<and> in_str ''=='' line then
        (let pkg_name = split_first ''=='' line in
         if lower pkg_name \<notin> set protected
         then parse_lines rest (packages @ [pkg_name])
         else parse_lines rest packages)
      else parse_lines rest packages)"

definition parse_packages :: "string \<Rightarrow> string list" where
  "parse_packages out = parse_lines (split_nl (strip out)) []"

section \<open>The background run\<close>

text \<open>
  The three signals of \<^verbatim>\<open>UninstallThread\<close>: \<^verbatim>\<open>output_signal(str)\<close>,
  \<^verbatim>\<open>progress_signal(int, int)\<close> and \<^verbatim>\<open>finished_signal(bool, str)\<close>.
\<close>

datatype task_event =
    OutputLine string
  | Progress nat nat
  | Completed bool string

text \<open>
  The two child processes: \<^verbatim>\<open>pip list --format=freeze\<close> and
  \<^verbatim>\<open>pip uninstall -y name\<close>.
\<close>

datatype command = PipList | PipUninstall string

text \<open>What a run does, in order: it emits a signal or calls \<^verbatim>\<open>subprocess.run\<close>.\<close>

datatype action = Emit task_event | Exec command

record completed_process =
  returncode :: int
  stdout :: string
  stderr :: string

text \<open>
  The world outside: what \<^verbatim>\<open>subprocess.run\<close> gives for the listing, and for the
  \<open>i\<close>-th uninstall call on a name. \<open>Inl msg\<close> is an exception raised by the call
  (with \<^verbatim>\<open>str(e) = msg\<close>), \<open>Inr r\<close> the returned process result.
\<close>

record env =
  pip_list :: "string + completed_process"
  pip_uninstall :: "nat \<Rightarrow> string \<Rightarrow> string + completed_process"

definition starting_line :: "nat \<Rightarrow> nat \<Rightarrow> string \<Rightarrow> string" where
  "starting_line i total_packages pkg_name =
     ''['' @ str_nat i @ ''/'' @ str_nat total_packages @ ''] Uninstalling '' @ pkg_name @ ''...''"

definition success_line :: string where
  "success_line = '' '' @ check_mark @ '' Success\<newline>''"

definition failed_line :: string where
  "failed_line = '' '' @ cross_mark @ '' Failed\<newline>''"

definition error_line :: "string \<Rightarrow> string" where
  "error_line err = ''   Error: '' @ err @ ''\<newline>''"

text \<open>
  Lines 132 to 148: the removal loop, \<open>i\<close> counting from 1 and \<^verbatim>\<open>failed_packages\<close>
  as accumulator. The result is the actions of the loop and either the exception that
  left it or the failed names.
\<close>

fun remove_loop ::
  "env \<Rightarrow> nat \<Rightarrow> nat \<Rightarrow> string list \<Rightarrow> string list \<Rightarrow> action list \<times> (string + string list)"
where
  "remove_loop e total_packages i [] failed = ([], Inr failed)"
| "remove_loop e total_packages i (pkg_name # rest) failed =
     (case pip_uninstall e i pkg_name of
        Inl msg \<Rightarrow>
          ([Emit (Progress i total_packages),
            Emit (OutputLine (starting_line i total_packages pkg_name)),
            Exec (PipUninstall pkg_name)], Inl msg)
      | Inr r \<Rightarrow>
          if returncode r = 0 then
            (case remove_loop e total_packages (i + 1) rest failed of
               (tr, res) \<Rightarrow>
                 ([Emit (Progress i total_packages),
                   Emit (OutputLine (starting_line i total_packages pkg_name)),
                   Exec (PipUninstall pkg_name),
                   Emit (OutputLine success_line)] @ tr, res))
          else
            (case remove_loop e total_packages (i + 1) rest (failed @ [pkg_name]) of
               (tr, res) \<Rightarrow>
                 ([Emit (Progress i total_packages),
                   Emit (OutputLine (starting_line i total_packages pkg_name)),
                   Exec (PipUninstall pkg_name),
                   Emit (OutputLine failed_line)]
                  @ (if stderr r \<noteq> [] then [Emit (OutputLine (error_line (stderr r)))] else [])
                  @ tr, res)))"

definition rule_line :: string where
  "rule_line = replicate 60 CHR ''-''"

text \<open>Lines 150 to 158: the report after the loop.\<close>

definition report :: "nat \<Rightarrow> string list \<Rightarrow> action list" where
  "report total_packages failed =
     Emit (OutputLine (''\<newline>'' @ rule_line @ ''\<newline>'')) #
     (if failed = [] then
        [Emit (Completed True
           (''Successfully uninstalled '' @ str_nat total_packages @ '' packages!''))]
      else
        Emit (OutputLine (''\<newline>'' @ warning_sign @ '' Failed to uninstall ''
                @ str_nat (length failed) @ '' packages:\<newline>'')) #
        map (\<lambda>pkg. Emit (OutputLine (''  - '' @ pkg @ ''\<newline>''))) failed @
        [Emit (Completed False
           (''Failed to uninstall '' @ str_nat (length failed) @ '' packages''))])"

text \<open>Lines 96 to 103: what the run does to get the listing.\<close>

definition listing_actions :: "action list" where
  "listing_actions =
     [Emit (OutputLine ''Fetching list of installed packages...\<newline>''),
      Emit (Progress 0 0),
      Exec PipList]"

text \<open>Lines 122 to 128: the lines in front of the removal loop.\<close>

definition found_actions :: "string list \<Rightarrow> action list" where
  "found_actions packages =
     [Emit (OutputLine (''Found '' @ str_nat (length packages)
              @ '' packages to uninstall\<newline>'')),
      Emit (OutputLine (''Packages: '' @ join '', '' packages @ ''\<newline>\<newline>'')),
      Emit (OutputLine ''Uninstalling packages...\<newline>''),
      Emit (OutputLine (rule_line @ ''\<newline>''))]"

text \<open>
  Lines 95 to 158: the body of the \<^verbatim>\<open>try\<close>. \<open>Some msg\<close> is an exception that
  reached the \<^verbatim>\<open>except\<close> clause.
\<close>

definition run_body :: "env \<Rightarrow> action list \<times> string option" where
  "run_body e =
     (case pip_list e of
        Inl msg \<Rightarrow> (listing_actions, Some msg)
      | Inr result \<Rightarrow>
          if returncode result \<noteq> 0 then
            (listing_actions @ [Emit (Completed False ''Failed to get package list'')], None)
          else
            (let packages = parse_packages (stdout result) in
             if packages = [] then
               (listing_actions @ [Emit (Completed True ''No packages to uninstall'')], None)
             else
               (let total_packages = length packages in
                case remove_loop e total_packages 1 packages [] of
                  (tr, Inl msg) \<Rightarrow>
                    (listing_actions @ found_actions packages @ tr, Some msg)
                | (tr, Inr failed_packages) \<Rightarrow>
                    (listing_actions @ found_actions packages @ tr
                       @ report total_packages failed_packages, None))))"

text \<open>Lines 93 to 161: \<^verbatim>\<open>UninstallThread.run\<close>, the body under its handler.\<close>

definition run :: "env \<Rightarrow> action list" where
  "run e =
     (case run_body e of
        (tr, None) \<Rightarrow> tr
      | (tr, Some msg) \<Rightarrow> tr @ [Emit (Completed False (''Error: '' @ msg))])"

section \<open>The window\<close>

text \<open>
  The part of \<^verbatim>\<open>PackageUninstallerGUI\<close> that starts a run: the three buttons, the
  progress bar, the log, and the number of times \<^verbatim>\<open>UninstallThread.start\<close> was
  called. Child processes for a removal are launched by \<open>run\<close> alone, that is by a
  started thread.
\<close>

datatype standard_button = Yes | No

record gui =
  uninstall_enabled :: bool
  info_enabled :: bool
  clear_enabled :: bool
  progress_visible :: bool
  progress_maximum :: int
  progress_value :: int
  output_text :: "string list"
  threads_started :: nat

text \<open>Lines 276 to 292.\<close>

definition start_uninstall :: "gui \<Rightarrow> gui" where
  "start_uninstall g =
     g\<lparr>output_text := [],
       uninstall_enabled := False,
       info_enabled := False,
       clear_enabled := False,
       progress_visible := True,
       progress_maximum := 0,
       progress_value := 0,
       threads_started := threads_started g + 1\<rparr>"

text \<open>
  Lines 258 to 274, \<open>reply\<close> being the button the user closed the question with.
\<close>

definition confirm_uninstall :: "standard_button \<Rightarrow> gui \<Rightarrow> gui" where
  "confirm_uninstall reply g = (if reply = Yes then start_uninstall g else g)"

section \<open>Notions used by the properties\<close>

text \<open>A line of the listing that the parsing loop turns into a package name.\<close>

definition is_entry :: "string \<Rightarrow> bool" where
  "is_entry line =
     (line \<noteq> [] \<and> in_str ''=='' line \<and> lower (split_first ''=='' line) \<notin> set protected)"

fun is_completed :: "action \<Rightarrow> bool" where
  "is_completed (Emit (Completed success message)) = True"
| "is_completed (Emit (OutputLine text)) = False"
| "is_completed (Emit (Progress current total_packages)) = False"
| "is_completed (Exec c) = False"

fun is_output :: "action \<Rightarrow> bool" where
  "is_output (Emit (OutputLine text)) = True"
| "is_output (Emit (Completed success message)) = False"
| "is_output (Emit (Progress current total_packages)) = False"
| "is_output (Exec c) = False"

text \<open>The child processes of a sequence of actions, in order.\<close>

fun execs :: "action list \<Rightarrow> command list" where
  "execs [] = []"
| "execs (Exec c # as) = c # execs as"
| "execs (Emit ev # as) = execs as"

text \<open>The actions that follow the listing command.\<close>

fun after_listing :: "action list \<Rightarrow> action list" where
  "after_listing [] = []"
| "after_listing (a # as) = (if a = Exec PipList then as else after_listing as)"

text \<open>The call returned, and with a non-zero exit code.\<close>

fun failed_exit :: "string + completed_process \<Rightarrow> bool" where
  "failed_exit (Inl msg) = False"
| "failed_exit (Inr r) = (returncode r \<noteq> 0)"

text \<open>
  The names whose uninstall command exits non-zero, the calls being numbered from \<open>i\<close>.
\<close>

definition failed_of :: "env \<Rightarrow> nat \<Rightarrow> string list \<Rightarrow> string list" where
  "failed_of e i pkgs =
     map snd (filter (\<lambda>(j, pkg). failed_exit (pip_uninstall e j pkg)) (enumerate i pkgs))"

text \<open>What the loop does for one name once its command has returned \<open>r\<close>.\<close>

definition item_actions :: "nat \<Rightarrow> nat \<Rightarrow> string \<Rightarrow> completed_process \<Rightarrow> action list" where
  "item_actions i total_packages pkg_name r =
     [Emit (Progress i total_packages),
      Emit (OutputLine (starting_line i total_packages pkg_name)),
      Exec (PipUninstall pkg_name)] @
     (if returncode r = 0 then [Emit (OutputLine success_line)]
      else Emit (OutputLine failed_line) #
           (if stderr r = [] then [] else [Emit (OutputLine (error_line (stderr r)))]))"

section \<open>Example environments\<close>

text \<open>The listing gives foo, bar and pip; removing bar fails.\<close>

definition scenario_env :: env where
  "scenario_env =
     \<lparr>pip_list = Inr \<lparr>returncode = 0,
                       stdout = ''foo==1.0\<newline>bar==2.1\<newline>pip==23.0\<newline>'',
                       stderr = []\<rparr>,
      pip_uninstall = (\<lambda>i pkg.
        if pkg = ''bar''
        then Inr \<lparr>returncode = 1, stdout = [], stderr = ''boom''\<rparr>
        else Inr \<lparr>returncode = 0, stdout = ''ok'', stderr = []\<rparr>)\<rparr>"

text \<open>The listing command exits with code 1.\<close>

definition list_fails_env :: env where
  "list_fails_env =
     \<lparr>pip_list = Inr \<lparr>returncode = 1, stdout = [], stderr = ''no pip''\<rparr>,
      pip_uninstall = (\<lambda>i pkg. Inr \<lparr>returncode = 0, stdout = [], stderr = []\<rparr>)\<rparr>"

text \<open>Only protected names are installed.\<close>

definition bare_env :: env where
  "bare_env =
     \<lparr>pip_list = Inr \<lparr>returncode = 0,
                       stdout = ''pip==23.0\<newline>Wheel==0.41\<newline>'',
                       stderr = []\<rparr>,
      pip_uninstall = (\<lambda>i pkg. Inr \<lparr>returncode = 0, stdout = [], stderr = []\<rparr>)\<rparr>"

text \<open>The listing gives foo and bar; launching the command for bar raises.\<close>

definition faulty_env :: env where
  "faulty_env =
     \<lparr>pip_list = Inr \<lparr>returncode = 0,
                       stdout = ''foo==1.0\<newline>bar==2.1\<newline>'',
                       stderr = []\<rparr>,
      pip_uninstall = (\<lambda>i pkg.
        if pkg = ''bar'' then Inl ''[Errno 12] Cannot allocate memory''
        else Inr \<lparr>returncode = 0, stdout = [], stderr = []\<rparr>)\<rparr>"

definition idle_gui :: gui where
  "idle_gui =
     \<lparr>uninstall_enabled = True, info_enabled = True, clear_enabled = True,
      progress_visible = False, progress_maximum = 100, progress_value = 0,
      output_text = [], threads_started = 0\<rparr>"

section \<open>Properties of the parsing\<close>

lemma split_first_decomp:
  "in_str sep s \<Longrightarrow> \<exists>r. s = split_first sep s @ sep @ r"
proof (induction s)
  case Nil
  then show ?case by (simp add: startswith_def)
next
  case (Cons c cs)
  show ?case
  proof (cases "startswith (c # cs) sep")
    case True
    then have "c # cs = sep @ drop (length sep) (c # cs)"
      unfolding startswith_def by (metis append_take_drop_id)
    with True show ?thesis by auto
  next
    case False
    with Cons.prems have "in_str sep cs" by simp
    with Cons.IH obtain r where "cs = split_first sep cs @ sep @ r" by blast
    with False show ?thesis by auto
  qed
qed

lemma split_first_leftmost:
  "j < length (split_first sep s) \<Longrightarrow> \<not> startswith (drop j s) sep"
proof (induction s arbitrary: j)
  case Nil
  then show ?case by simp
next
  case (Cons c cs)
  show ?case
  proof (cases "startswith (c # cs) sep")
    case True
    with Cons.prems show ?thesis by simp
  next
    case False
    show ?thesis
    proof (cases j)
      case 0
      with False show ?thesis by simp
    next
      case (Suc k)
      with Cons.prems False have "k < length (split_first sep cs)" by simp
      from Cons.IH [OF this] Suc show ?thesis by simp
    qed
  qed
qed

lemma parse_lines_eq:
  "parse_lines ls packages = packages @ map (split_first ''=='') (filter is_entry ls)"
  by (induction ls arbitrary: packages) (simp_all add: is_entry_def Let_def)

lemma lower_protected: "p \<in> set protected \<Longrightarrow> lower p = p"
  by (auto simp: protected_def lower_def lower_char_def)

lemma parse_lines_not_protected:
  "x \<in> set (parse_lines ls []) \<Longrightarrow> lower x \<notin> set protected"
  by (auto simp: parse_lines_eq is_entry_def)

lemma remove_loop_execs:
  "remove_loop e t i pkgs failed = (tr, res) \<Longrightarrow> Exec (PipUninstall x) \<in> set tr
     \<Longrightarrow> x \<in> set pkgs"
proof (induction pkgs arbitrary: i failed tr res)
  case Nil
  then show ?case by simp
next
  case (Cons p ps)
  show ?case
  proof (cases "pip_uninstall e i p")
    case (Inl msg)
    with Cons.prems show ?thesis by auto
  next
    case (Inr r)
    obtain tr' res' where
      rec: "remove_loop e t (i + 1) ps (if returncode r = 0 then failed else failed @ [p])
              = (tr', res')"
      by (cases "remove_loop e t (i + 1) ps (if returncode r = 0 then failed else failed @ [p])")
    from Cons.prems Inr rec have "x = p \<or> Exec (PipUninstall x) \<in> set tr'"
      by (auto split: if_splits)
    with Cons.IH [OF rec] show ?thesis by auto
  qed
qed

lemma run_uninstalls:
  "Exec (PipUninstall x) \<in> set (run e) \<Longrightarrow>
     \<exists>r. pip_list e = Inr r \<and> x \<in> set (parse_packages (stdout r))"
  unfolding run_def run_body_def report_def listing_actions_def found_actions_def
  by (auto simp: Let_def split: sum.splits if_splits prod.splits option.splits
           dest: remove_loop_execs)

text \<open>
  C1. No name that the parsing of a listing returns is equal, letter case ignored, to
  \<^verbatim>\<open>pip\<close>, \<^verbatim>\<open>setuptools\<close> or \<^verbatim>\<open>wheel\<close>, and so no uninstall command of a run is
  issued for such a name. Two names are equal with case ignored when \<^verbatim>\<open>str.lower\<close>
  gives the same text for both, which is the comparison of line 115.
\<close>

theorem protected_never_removed:
  "(\<forall>x \<in> set (parse_packages out). \<forall>p \<in> set protected. lower x \<noteq> lower p) \<and>
   (\<forall>x. Exec (PipUninstall x) \<in> set (run e) \<longrightarrow> (\<forall>p \<in> set protected. lower x \<noteq> lower p))"
proof -
  have parsed: "lower x \<noteq> lower p"
    if "x \<in> set (parse_packages out')" and "p \<in> set protected" for x p out'
  proof -
    from that(1) have "lower x \<notin> set protected"
      unfolding parse_packages_def by (rule parse_lines_not_protected)
    with that(2) show ?thesis by (auto simp: lower_protected)
  qed
  have "lower x \<noteq> lower p"
    if "Exec (PipUninstall x) \<in> set (run e)" and "p \<in> set protected" for x p
  proof -
    from run_uninstalls [OF that(1)] obtain r :: completed_process
      where "x \<in> set (parse_packages (stdout r))" by blast
    then show ?thesis using that(2) by (rule parsed)
  qed
  with parsed show ?thesis by blast
qed

theorem protected_never_removed_witness:
  "''foo'' \<in> set (parse_packages ''foo==1.0\<newline>bar==2.1\<newline>pip==23.0\<newline>'') \<and>
   Exec (PipUninstall ''bar'') \<in> set (run scenario_env) \<and>
   lower ''foo'' \<noteq> lower ''pip'' \<and> lower ''bar'' \<noteq> lower ''wheel''"
proof -
  have m1: "''foo'' \<in> set (parse_packages ''foo==1.0\<newline>bar==2.1\<newline>pip==23.0\<newline>'')"
    by code_simp
  have m2: "Exec (PipUninstall ''bar'') \<in> set (run scenario_env)"
    by code_simp
  have p1: "''pip'' \<in> set protected" and p2: "''wheel'' \<in> set protected"
    by (simp_all add: protected_def)
  note inst = protected_never_removed
    [of "''foo==1.0\<newline>bar==2.1\<newline>pip==23.0\<newline>''" scenario_env]
  from inst m1 p1 have a: "lower ''foo'' \<noteq> lower ''pip''" by blast
  from inst m2 p2 have b: "lower ''bar'' \<noteq> lower ''wheel''" by blast
  from m1 m2 a b show ?thesis by blast
qed

text \<open>
  C3. A line of the listing gives a name only if it contains \<^verbatim>\<open>==\<close>, and the name is
  the text of the line in front of that separator. The lines \<^verbatim>\<open>foo==1.0\<close>,
  \<^verbatim>\<open>bar==2.1\<close> and \<^verbatim>\<open>pip==23.0\<close> give the names foo and bar, as lines and as the
  text of a listing.
\<close>

theorem parsed_names_precede_separator:
  "(\<forall>x \<in> set (parse_lines ls []).
      \<exists>l \<in> set ls. in_str ''=='' l \<and> (\<exists>r. l = x @ ''=='' @ r)) \<and>
   parse_lines [''foo==1.0'', ''bar==2.1'', ''pip==23.0''] [] = [''foo'', ''bar''] \<and>
   parse_packages ''foo==1.0\<newline>bar==2.1\<newline>pip==23.0\<newline>'' = [''foo'', ''bar'']"
proof (intro conjI ballI)
  fix x assume "x \<in> set (parse_lines ls [])"
  then obtain l where l: "l \<in> set ls" "is_entry l" "x = split_first ''=='' l"
    by (auto simp: parse_lines_eq)
  from l(2) have sep: "in_str ''=='' l" by (simp add: is_entry_def)
  from split_first_decomp [OF sep] l(3) have "\<exists>r. l = x @ ''=='' @ r" by simp
  with l(1) sep show "\<exists>l \<in> set ls. in_str ''=='' l \<and> (\<exists>r. l = x @ ''=='' @ r)" by blast
next
  show "parse_lines [''foo==1.0'', ''bar==2.1'', ''pip==23.0''] [] = [''foo'', ''bar'']"
    by code_simp
next
  show "parse_packages ''foo==1.0\<newline>bar==2.1\<newline>pip==23.0\<newline>'' = [''foo'', ''bar'']"
    by code_simp
qed

theorem parsed_names_precede_separator_witness:
  "''numpy'' \<in> set (parse_lines [''# comment'', ''numpy==1.26.4'', ''PIP==23.0''] []) \<and>
   (\<exists>l \<in> set [''# comment'', ''numpy==1.26.4'', ''PIP==23.0''].
      in_str ''=='' l \<and> (\<exists>r. l = ''numpy'' @ ''=='' @ r))"
proof -
  have m: "''numpy'' \<in> set (parse_lines [''# comment'', ''numpy==1.26.4'', ''PIP==23.0''] [])"
    by code_simp
  from parsed_names_precede_separator [of "[''# comment'', ''numpy==1.26.4'', ''PIP==23.0'']"] m
  have "\<exists>l \<in> set [''# comment'', ''numpy==1.26.4'', ''PIP==23.0''].
      in_str ''=='' l \<and> (\<exists>r. l = ''numpy'' @ ''=='' @ r)" by blast
  with m show ?thesis by (rule conjI)
qed

text \<open>
  C10. When a line gives a name, the name ends where the leftmost \<^verbatim>\<open>==\<close> of the line
  begins: the separator follows the name, and no \<^verbatim>\<open>==\<close> begins at an earlier
  position. The line \<^verbatim>\<open>a==b==1.0\<close> gives the name a.
\<close>

theorem name_ends_at_first_separator:
  "(parse_lines [line] [] = [x] \<longrightarrow>
      (\<exists>r. line = x @ ''=='' @ r) \<and> (\<forall>j < length x. \<not> startswith (drop j line) ''=='')) \<and>
   parse_lines [''a==b==1.0''] [] = [''a'']"
proof (intro conjI impI)
  assume p: "parse_lines [line] [] = [x]"
  then have e: "is_entry line" and x: "x = split_first ''=='' line"
    by (auto simp: parse_lines_eq split: if_splits)
  from e have "in_str ''=='' line" by (simp add: is_entry_def)
  from split_first_decomp [OF this] x show "\<exists>r. line = x @ ''=='' @ r" by simp
  from x show "\<forall>j < length x. \<not> startswith (drop j line) ''==''"
    by (auto dest: split_first_leftmost)
next
  show "parse_lines [''a==b==1.0''] [] = [''a'']" by code_simp
qed

theorem name_ends_at_first_separator_witness:
  "parse_lines [''a===b==1.0''] [] = [''a''] \<and>
   \<not> startswith (drop 0 ''a===b==1.0'') ''=='' \<and>
   startswith (drop 1 ''a===b==1.0'') ''=='' \<and> startswith (drop 2 ''a===b==1.0'') ''==''"
proof -
  have p: "parse_lines [''a===b==1.0''] [] = [''a'']" by code_simp
  from name_ends_at_first_separator [of "''a===b==1.0''" "''a''"] p
  have "\<forall>j < length ''a''. \<not> startswith (drop j ''a===b==1.0'') ''==''" by blast
  then have n: "\<not> startswith (drop 0 ''a===b==1.0'') ''==''" by simp
  have s: "startswith (drop 1 ''a===b==1.0'') ''=='' \<and> startswith (drop 2 ''a===b==1.0'') ''==''"
    by (simp add: startswith_def)
  from p n s show ?thesis by blast
qed

section \<open>Properties of the run\<close>

lemma remove_loop_no_completed:
  "remove_loop e t i pkgs failed = (tr, res) \<Longrightarrow> filter is_completed tr = []"
proof (induction pkgs arbitrary: i failed tr res)
  case Nil
  then show ?case by simp
next
  case (Cons p ps)
  show ?case
  proof (cases "pip_uninstall e i p")
    case (Inl msg)
    with Cons.prems show ?thesis by auto
  next
    case (Inr r)
    obtain tr' res' where
      rec: "remove_loop e t (i + 1) ps (if returncode r = 0 then failed else failed @ [p])
              = (tr', res')"
      by (cases "remove_loop e t (i + 1) ps (if returncode r = 0 then failed else failed @ [p])")
    from Cons.IH [OF rec] have "filter is_completed tr' = []" .
    with Cons.prems Inr rec show ?thesis by (auto split: if_splits)
  qed
qed

lemma report_ends_completed:
  "\<exists>tr success message.
     report t failed = tr @ [Emit (Completed success message)] \<and> filter is_completed tr = []"
proof (cases "failed = []")
  case True
  then have "report t failed =
      [Emit (OutputLine (''\<newline>'' @ rule_line @ ''\<newline>''))] @
      [Emit (Completed True (''Successfully uninstalled '' @ str_nat t @ '' packages!''))]"
    by (simp add: report_def)
  moreover have
    "filter is_completed [Emit (OutputLine (''\<newline>'' @ rule_line @ ''\<newline>''))] = []"
    by simp
  ultimately show ?thesis by blast
next
  case False
  let ?tr = "Emit (OutputLine (''\<newline>'' @ rule_line @ ''\<newline>'')) #
     Emit (OutputLine (''\<newline>'' @ warning_sign @ '' Failed to uninstall ''
             @ str_nat (length failed) @ '' packages:\<newline>'')) #
     map (\<lambda>pkg. Emit (OutputLine (''  - '' @ pkg @ ''\<newline>''))) failed"
  from False have "report t failed = ?tr @
      [Emit (Completed False (''Failed to uninstall '' @ str_nat (length failed) @ '' packages''))]"
    by (simp add: report_def)
  moreover have "filter is_completed ?tr = []"
    by (simp add: filter_empty_conv)
  ultimately show ?thesis by blast
qed

lemma listing_no_completed: "filter is_completed listing_actions = []"
  by (simp add: listing_actions_def)

lemma found_no_completed: "filter is_completed (found_actions pkgs) = []"
  by (simp add: found_actions_def)

lemma run_list_raises:
  "pip_list e = Inl msg \<Longrightarrow>
     run e = listing_actions @ [Emit (Completed False (''Error: '' @ msg))]"
  by (simp add: run_def run_body_def)

lemma run_list_fails:
  "pip_list e = Inr r \<Longrightarrow> returncode r \<noteq> 0 \<Longrightarrow>
     run e = listing_actions @ [Emit (Completed False ''Failed to get package list'')]"
  by (simp add: run_def run_body_def)

lemma run_nothing:
  "pip_list e = Inr r \<Longrightarrow> returncode r = 0 \<Longrightarrow> parse_packages (stdout r) = [] \<Longrightarrow>
     run e = listing_actions @ [Emit (Completed True ''No packages to uninstall'')]"
  by (simp add: run_def run_body_def)

lemma run_loop_raises:
  "pip_list e = Inr r \<Longrightarrow> returncode r = 0 \<Longrightarrow> parse_packages (stdout r) = pkgs \<Longrightarrow>
   pkgs \<noteq> [] \<Longrightarrow> remove_loop e (length pkgs) 1 pkgs [] = (tr, Inl msg) \<Longrightarrow>
     run e = (listing_actions @ found_actions pkgs @ tr)
               @ [Emit (Completed False (''Error: '' @ msg))]"
  by (simp add: run_def run_body_def)

lemma run_loop_returns:
  "pip_list e = Inr r \<Longrightarrow> returncode r = 0 \<Longrightarrow> parse_packages (stdout r) = pkgs \<Longrightarrow>
   pkgs \<noteq> [] \<Longrightarrow> remove_loop e (length pkgs) 1 pkgs [] = (tr, Inr failed) \<Longrightarrow>
     run e = listing_actions @ found_actions pkgs @ tr @ report (length pkgs) failed"
  by (simp add: run_def run_body_def)

text \<open>
  C2. Whatever the listing and the uninstall commands do (exit with zero or not, raise an
  exception), a run ends with a Completed event and emits no other Completed event.
\<close>

theorem run_completes_once:
  "\<exists>tr success message.
     run e = tr @ [Emit (Completed success message)] \<and> filter is_completed tr = []"
proof (cases "pip_list e")
  case (Inl msg)
  from run_list_raises [OF Inl] listing_no_completed show ?thesis by blast
next
  case (Inr r)
  show ?thesis
  proof (cases "returncode r = 0")
    case False
    from run_list_fails [OF Inr False] listing_no_completed show ?thesis by blast
  next
    case True
    show ?thesis
    proof (cases "parse_packages (stdout r) = []")
      case True
      from run_nothing [OF Inr \<open>returncode r = 0\<close> True] listing_no_completed
      show ?thesis by blast
    next
      case False
      define pkgs where "pkgs = parse_packages (stdout r)"
      with False have ne: "pkgs \<noteq> []" and p: "parse_packages (stdout r) = pkgs" by simp_all
      obtain tr res where loop: "remove_loop e (length pkgs) 1 pkgs [] = (tr, res)"
        by (cases "remove_loop e (length pkgs) 1 pkgs []")
      from remove_loop_no_completed [OF loop] have quiet:
        "filter is_completed (listing_actions @ found_actions pkgs @ tr) = []"
        by (simp add: listing_no_completed found_no_completed)
      show ?thesis
      proof (cases res)
        case (Inl msg)
        from run_loop_raises [OF Inr True p ne loop [unfolded Inl]] quiet
        show ?thesis by blast
      next
        case (Inr failed)
        from report_ends_completed [of "length pkgs" failed] obtain tr' success message
          where r: "report (length pkgs) failed = tr' @ [Emit (Completed success message)]"
            and q: "filter is_completed tr' = []" by blast
        from run_loop_returns [OF \<open>pip_list e = Inr r\<close> True p ne loop [unfolded Inr]] r
        have "run e = (listing_actions @ found_actions pkgs @ tr @ tr')
                        @ [Emit (Completed success message)]" by simp
        moreover from quiet q
        have "filter is_completed (listing_actions @ found_actions pkgs @ tr @ tr') = []"
          by simp
        ultimately show ?thesis by blast
      qed
    qed
  qed
qed

text \<open>
  C5 as the code has it. When the listing command exits with a non-zero code, the run
  consists of the line that announces the fetching, the indeterminate progress, the
  listing command and Completed(False, "Failed to get package list"): nothing is emitted
  between the command and the Completed event, and no uninstall command is issued.
\<close>

theorem list_failure_run:
  "pip_list e = Inr r \<Longrightarrow> returncode r \<noteq> 0 \<Longrightarrow>
     run e = [Emit (OutputLine ''Fetching list of installed packages...\<newline>''),
              Emit (Progress 0 0),
              Exec PipList,
              Emit (Completed False ''Failed to get package list'')]
     \<and> execs (run e) = [PipList]"
  by (simp add: run_list_fails listing_actions_def)

theorem list_failure_run_witness:
  "pip_list list_fails_env = Inr \<lparr>returncode = 1, stdout = [], stderr = ''no pip''\<rparr> \<and>
   execs (run list_fails_env) = [PipList]"
  using list_failure_run
    [of list_fails_env "\<lparr>returncode = 1, stdout = [], stderr = ''no pip''\<rparr>"]
  by (simp add: list_fails_env_def)

text \<open>
  C5 as the claim states it fails: with a listing command that exits with code 1 and
  writes "no pip" to its standard error, the actions that follow the command hold no
  OutputLine at all, and the one OutputLine of the run is emitted before the command.
\<close>

theorem list_failure_output_counterexample:
  "run list_fails_env =
     [Emit (OutputLine ''Fetching list of installed packages...\<newline>''),
      Emit (Progress 0 0),
      Exec PipList,
      Emit (Completed False ''Failed to get package list'')] \<and>
   filter is_output (after_listing (run list_fails_env)) = []"
  by code_simp

text \<open>
  C6. When the listing command exits with zero and the parsing returns no name, the run
  is the two listing events, the listing command and Completed(True, "No packages to
  uninstall"); the listing is its only child process.
\<close>

theorem empty_list_run:
  "pip_list e = Inr r \<Longrightarrow> returncode r = 0 \<Longrightarrow> parse_packages (stdout r) = [] \<Longrightarrow>
     run e = [Emit (OutputLine ''Fetching list of installed packages...\<newline>''),
              Emit (Progress 0 0),
              Exec PipList,
              Emit (Completed True ''No packages to uninstall'')]
     \<and> execs (run e) = [PipList]"
  by (simp add: run_nothing listing_actions_def)

theorem empty_list_run_witness:
  "parse_packages ''pip==23.0\<newline>Wheel==0.41\<newline>'' = [] \<and>
   run bare_env = [Emit (OutputLine ''Fetching list of installed packages...\<newline>''),
              Emit (Progress 0 0),
              Exec PipList,
              Emit (Completed True ''No packages to uninstall'')]"
proof -
  have l: "pip_list bare_env =
      Inr \<lparr>returncode = 0, stdout = ''pip==23.0\<newline>Wheel==0.41\<newline>'', stderr = []\<rparr>"
    by (simp add: bare_env_def)
  have p: "parse_packages ''pip==23.0\<newline>Wheel==0.41\<newline>'' = []" by code_simp
  from empty_list_run [OF l] p show ?thesis by simp
qed

section \<open>Properties of the window\<close>

text \<open>
  C9. When the user closes the question with any button but Yes, the window is left as
  it was: the buttons, the progress bar and the log are unchanged and no thread is
  started, so no listing or uninstall command is launched.
\<close>

theorem declining_changes_nothing:
  "reply \<noteq> Yes \<Longrightarrow> confirm_uninstall reply g = g"
  by (simp add: confirm_uninstall_def)

theorem declining_changes_nothing_witness:
  "No \<noteq> Yes \<and> confirm_uninstall No idle_gui = idle_gui \<and>
   threads_started (confirm_uninstall No idle_gui) = 0"
  using declining_changes_nothing [of No idle_gui]
  by (simp add: idle_gui_def)

section \<open>Properties of the removal loop\<close>

lemma execs_append: "execs (as @ bs) = execs as @ execs bs"
  by (induction as rule: execs.induct) simp_all

lemma execs_item_actions: "execs (item_actions i t p r) = [PipUninstall p]"
  by (simp add: item_actions_def)

lemma remove_loop_step:
  "pip_uninstall e i p = Inr r \<Longrightarrow>
     remove_loop e t i (p # ps) failed =
       (item_actions i t p r
          @ fst (remove_loop e t (Suc i) ps (if returncode r = 0 then failed else failed @ [p])),
        snd (remove_loop e t (Suc i) ps (if returncode r = 0 then failed else failed @ [p])))"
  by (simp add: item_actions_def split: prod.splits)

lemma remove_loop_returns:
  "\<forall>(j, pkg) \<in> set (enumerate i pkgs). \<exists>r. pip_uninstall e j pkg = Inr r \<Longrightarrow>
     execs (fst (remove_loop e t i pkgs failed)) = map PipUninstall pkgs \<and>
     snd (remove_loop e t i pkgs failed) = Inr (failed @ failed_of e i pkgs)"
proof (induction pkgs arbitrary: i failed)
  case Nil
  show ?case by (simp add: failed_of_def)
next
  case (Cons p ps)
  from Cons.prems obtain r where r: "pip_uninstall e i p = Inr r" by auto
  from Cons.prems
  have rest: "\<forall>(j, pkg) \<in> set (enumerate (Suc i) ps). \<exists>r. pip_uninstall e j pkg = Inr r"
    by simp
  note ih = Cons.IH [OF rest, of "if returncode r = 0 then failed else failed @ [p]"]
  from ih r show ?case
    by (simp del: remove_loop.simps
          add: remove_loop_step [OF r] execs_append execs_item_actions failed_of_def)
qed

lemma failed_of_set:
  "set (failed_of e i pkgs) =
     {pkgs ! k | k. k < length pkgs \<and> failed_exit (pip_uninstall e (i + k) (pkgs ! k))}"
proof -
  have "set (failed_of e i pkgs) =
      {pkg. \<exists>j. (j, pkg) \<in> set (enumerate i pkgs) \<and> failed_exit (pip_uninstall e j pkg)}"
    by (force simp: failed_of_def)
  also have "\<dots> = {pkgs ! k | k. k < length pkgs \<and> failed_exit (pip_uninstall e (i + k) (pkgs ! k))}"
  proof (intro set_eqI iffI; clarsimp simp: in_set_enumerate_eq)
    fix j assume "i \<le> j" "j < length pkgs + i" "failed_exit (pip_uninstall e j (pkgs ! (j - i)))"
    then show "\<exists>k. pkgs ! (j - i) = pkgs ! k \<and> k < length pkgs
        \<and> failed_exit (pip_uninstall e (i + k) (pkgs ! k))"
      by (intro exI [of _ "j - i"]) auto
  next
    fix k assume "k < length pkgs" "failed_exit (pip_uninstall e (i + k) (pkgs ! k))"
    then show "\<exists>j\<ge>i. j < length pkgs + i \<and> pkgs ! (j - i) = pkgs ! k
        \<and> failed_exit (pip_uninstall e j (pkgs ! k))"
      by (intro exI [of _ "i + k"]) auto
  qed
  finally show ?thesis .
qed

text \<open>
  C7. When every uninstall call returns, with a zero exit code or not, the loop issues one
  uninstall command for each name, in the order of the list, and the failed names it
  returns are those whose command exits with a non-zero code, in that order.
\<close>

theorem removal_attempts_every_name:
  "\<forall>(j, pkg) \<in> set (enumerate 1 pkgs). \<exists>r. pip_uninstall e j pkg = Inr r \<Longrightarrow>
     execs (fst (remove_loop e (length pkgs) 1 pkgs [])) = map PipUninstall pkgs \<and>
     snd (remove_loop e (length pkgs) 1 pkgs []) = Inr (failed_of e 1 pkgs) \<and>
     set (failed_of e 1 pkgs) =
       {pkgs ! k | k. k < length pkgs \<and> failed_exit (pip_uninstall e (1 + k) (pkgs ! k))}"
  using remove_loop_returns [of 1 pkgs e "length pkgs" "[]"] failed_of_set [of e 1 pkgs]
  by simp

theorem removal_attempts_every_name_witness:
  "execs (fst (remove_loop scenario_env 3 1 [''bar'', ''foo'', ''baz''] []))
     = [PipUninstall ''bar'', PipUninstall ''foo'', PipUninstall ''baz''] \<and>
   snd (remove_loop scenario_env 3 1 [''bar'', ''foo'', ''baz''] []) = Inr [''bar'']"
proof -
  have h: "\<forall>(j, pkg) \<in> set (enumerate 1 [''bar'', ''foo'', ''baz'']).
      \<exists>r. pip_uninstall scenario_env j pkg = Inr r"
    by (simp add: scenario_env_def)
  have f: "failed_of scenario_env 1 [''bar'', ''foo'', ''baz''] = [''bar'']"
    by code_simp
  from removal_attempts_every_name [OF h] f show ?thesis
    by (simp del: remove_loop.simps add: numeral_3_eq_3)
qed

lemma remove_loop_item:
  "k < length pkgs \<Longrightarrow>
   \<forall>j<k. \<exists>r. pip_uninstall e (i + j) (pkgs ! j) = Inr r \<Longrightarrow>
   pip_uninstall e (i + k) (pkgs ! k) = Inr r \<Longrightarrow>
     \<exists>before after.
       fst (remove_loop e t i pkgs failed) = before @ item_actions (i + k) t (pkgs ! k) r @ after \<and>
       execs before = map PipUninstall (take k pkgs)"
proof (induction pkgs arbitrary: i k failed)
  case Nil
  then show ?case by simp
next
  case (Cons p ps)
  show ?case
  proof (cases k)
    case 0
    with Cons.prems have r: "pip_uninstall e i p = Inr r" by simp
    have "fst (remove_loop e t i (p # ps) failed) = [] @ item_actions i t p r
        @ fst (remove_loop e t (Suc i) ps (if returncode r = 0 then failed else failed @ [p]))"
      by (simp del: remove_loop.simps add: remove_loop_step [OF r])
    moreover have "execs [] = map PipUninstall (take 0 (p # ps))" by simp
    ultimately show ?thesis using 0 by (metis add.right_neutral nth_Cons_0)
  next
    case (Suc k')
    from Cons.prems(2) Suc obtain r0 where r0: "pip_uninstall e i p = Inr r0"
      by (metis add.right_neutral nth_Cons_0 zero_less_Suc)
    from Cons.prems(1) Suc have k': "k' < length ps" by simp
    have earlier: "\<forall>j<k'. \<exists>r. pip_uninstall e (Suc i + j) (ps ! j) = Inr r"
    proof (intro allI impI)
      fix j assume "j < k'"
      then have "Suc j < k" using Suc by simp
      with Cons.prems(2) have "\<exists>r. pip_uninstall e (i + Suc j) ((p # ps) ! Suc j) = Inr r"
        by blast
      then show "\<exists>r. pip_uninstall e (Suc i + j) (ps ! j) = Inr r" by simp
    qed
    from Cons.prems(3) Suc have this_one: "pip_uninstall e (Suc i + k') (ps ! k') = Inr r"
      by simp
    from Cons.IH [OF k' earlier this_one,
        of "if returncode r0 = 0 then failed else failed @ [p]"]
    obtain before after where
      split: "fst (remove_loop e t (Suc i) ps (if returncode r0 = 0 then failed else failed @ [p]))
          = before @ item_actions (Suc i + k') t (ps ! k') r @ after"
      and cmds: "execs before = map PipUninstall (take k' ps)" by blast
    have "fst (remove_loop e t i (p # ps) failed) =
        (item_actions i t p r0 @ before) @ item_actions (i + k) t ((p # ps) ! k) r @ after"
      using split Suc by (simp del: remove_loop.simps add: remove_loop_step [OF r0])
    moreover have "execs (item_actions i t p r0 @ before) = map PipUninstall (take k (p # ps))"
      using cmds Suc by (simp add: execs_append execs_item_actions)
    ultimately show ?thesis by blast
  qed
qed

lemma in_str_prefix: "in_str sub (sub @ rest)"
  by (cases "sub @ rest") (simp_all add: startswith_def, metis append_eq_conv_conj)

lemma in_str_infix: "in_str sub (front @ sub @ rest)"
  by (induction front) (simp_all add: in_str_prefix)

text \<open>
  C8. For the item at position \<open>k + 1\<close> of \<open>n\<close> names, the items before it having
  returned, the loop emits Progress(k + 1, n) and the starting line, then issues the
  uninstall command of that name, then emits the success line when the command exits
  with zero, and otherwise the failed line, followed, when the captured standard error
  is not empty, by the error line, which contains that text. Before these actions the
  loop has issued the commands of the first \<open>k\<close> names and no other.
\<close>

theorem item_events_in_order:
  "k < length pkgs \<Longrightarrow>
   \<forall>j<k. \<exists>r. pip_uninstall e (1 + j) (pkgs ! j) = Inr r \<Longrightarrow>
   pip_uninstall e (1 + k) (pkgs ! k) = Inr r \<Longrightarrow>
     (\<exists>before after.
        fst (remove_loop e (length pkgs) 1 pkgs []) =
          before @
          ([Emit (Progress (1 + k) (length pkgs)),
            Emit (OutputLine (starting_line (1 + k) (length pkgs) (pkgs ! k))),
            Exec (PipUninstall (pkgs ! k))] @
           (if returncode r = 0 then [Emit (OutputLine success_line)]
            else Emit (OutputLine failed_line) #
                 (if stderr r = [] then []
                  else [Emit (OutputLine (error_line (stderr r)))]))) @
          after \<and>
        execs before = map PipUninstall (take k pkgs)) \<and>
     in_str (stderr r) (error_line (stderr r))"
  using remove_loop_item [of k pkgs e 1 r "length pkgs" "[]"]
    in_str_infix [of "stderr r" "''   Error: ''" "''\<newline>''"]
  by (simp add: item_actions_def error_line_def)

theorem item_events_in_order_witness:
  "\<exists>before after.
     fst (remove_loop scenario_env 2 1 [''foo'', ''bar''] []) =
       before @
       [Emit (Progress 2 2),
        Emit (OutputLine (starting_line 2 2 ''bar'')),
        Exec (PipUninstall ''bar''),
        Emit (OutputLine failed_line),
        Emit (OutputLine (error_line ''boom''))] @
       after \<and>
     execs before = [PipUninstall ''foo'']"
proof -
  have k: "(1::nat) < length [''foo'', ''bar'']" by simp
  have earlier: "\<forall>j<1. \<exists>r. pip_uninstall scenario_env (1 + j) ([''foo'', ''bar''] ! j) = Inr r"
    by (simp add: scenario_env_def)
  have this_one: "pip_uninstall scenario_env (1 + 1) ([''foo'', ''bar''] ! 1)
      = Inr \<lparr>returncode = 1, stdout = [], stderr = ''boom''\<rparr>"
    by (simp add: scenario_env_def)
  from item_events_in_order [OF k earlier this_one] show ?thesis
    by (simp del: remove_loop.simps add: numeral_2_eq_2)
qed

section \<open>Properties of the final report\<close>

text \<open>
  C4 as the code has it. In a run whose listing succeeds with a non-empty list of names
  and whose uninstall calls all return, \<open>k\<close> of them with a non-zero exit code: when
  \<open>k = 0\<close> the run ends with Completed(True, ...); otherwise it ends with one line
  \<^verbatim>\<open>  - name\<close> for each failed name, in order, and then Completed(False, "Failed to
  uninstall k packages"), whose text gives the number of failed names.
\<close>

theorem completed_reports_failures:
  "pip_list e = Inr r \<Longrightarrow> returncode r = 0 \<Longrightarrow> parse_packages (stdout r) = pkgs \<Longrightarrow>
   pkgs \<noteq> [] \<Longrightarrow>
   \<forall>(j, pkg) \<in> set (enumerate 1 pkgs). \<exists>r. pip_uninstall e j pkg = Inr r \<Longrightarrow>
     \<exists>tr. run e = tr @
       (if failed_of e 1 pkgs = [] then
          [Emit (Completed True
             (''Successfully uninstalled '' @ str_nat (length pkgs) @ '' packages!''))]
        else
          map (\<lambda>pkg. Emit (OutputLine (''  - '' @ pkg @ ''\<newline>''))) (failed_of e 1 pkgs) @
          [Emit (Completed False
             (''Failed to uninstall '' @ str_nat (length (failed_of e 1 pkgs))
                @ '' packages''))])"
proof -
  assume l: "pip_list e = Inr r" and z: "returncode r = 0"
    and p: "parse_packages (stdout r) = pkgs" and ne: "pkgs \<noteq> []"
    and ret: "\<forall>(j, pkg) \<in> set (enumerate 1 pkgs). \<exists>r. pip_uninstall e j pkg = Inr r"
  let ?failed = "failed_of e 1 pkgs"
  let ?rule = "Emit (OutputLine (''\<newline>'' @ rule_line @ ''\<newline>''))"
  let ?names = "map (\<lambda>pkg. Emit (OutputLine (''  - '' @ pkg @ ''\<newline>''))) ?failed"
  obtain tr res where loop: "remove_loop e (length pkgs) 1 pkgs [] = (tr, res)"
    by (cases "remove_loop e (length pkgs) 1 pkgs []")
  from remove_loop_returns [OF ret, of "length pkgs" "[]"]
  have "snd (remove_loop e (length pkgs) 1 pkgs []) = Inr ([] @ ?failed)"
    by (rule conjunct2)
  then have res: "res = Inr ?failed"
    unfolding loop by (simp only: snd_conv append_Nil)
  from loop res have loop': "remove_loop e (length pkgs) 1 pkgs [] = (tr, Inr ?failed)"
    by (simp only:)
  note shape = run_loop_returns [OF l z p ne loop']
  show ?thesis
  proof (cases "?failed = []")
    case True
    have "report (length pkgs) ?failed =
        [?rule] @ [Emit (Completed True
           (''Successfully uninstalled '' @ str_nat (length pkgs) @ '' packages!''))]"
      unfolding report_def by (subst if_P [OF True]) (simp only: append_Cons append_Nil)
    with shape have "run e = (listing_actions @ found_actions pkgs @ tr @ [?rule]) @
        [Emit (Completed True
           (''Successfully uninstalled '' @ str_nat (length pkgs) @ '' packages!''))]"
      by (simp only: append_assoc)
    then show ?thesis
      by (subst if_P [OF True]) (rule exI)
  next
    case False
    let ?warn = "Emit (OutputLine (''\<newline>'' @ warning_sign @ '' Failed to uninstall ''
                @ str_nat (length ?failed) @ '' packages:\<newline>''))"
    have "report (length pkgs) ?failed =
        [?rule, ?warn] @ (?names @ [Emit (Completed False
           (''Failed to uninstall '' @ str_nat (length ?failed) @ '' packages''))])"
      unfolding report_def by (subst if_not_P [OF False]) (simp only: append_Cons append_Nil)
    with shape have "run e = (listing_actions @ found_actions pkgs @ tr @ [?rule, ?warn]) @
        (?names @ [Emit (Completed False
           (''Failed to uninstall '' @ str_nat (length ?failed) @ '' packages''))])"
      by (simp only: append_assoc)
    then show ?thesis
      by (subst if_not_P [OF False]) (rule exI)
  qed
qed

theorem completed_reports_failures_witness:
  "\<exists>tr. run scenario_env = tr @
     [Emit (OutputLine ''  - bar\<newline>''),
      Emit (Completed False ''Failed to uninstall 1 packages'')]"
proof -
  have l: "pip_list scenario_env =
      Inr \<lparr>returncode = 0,
           stdout = ''foo==1.0\<newline>bar==2.1\<newline>pip==23.0\<newline>'',
           stderr = []\<rparr>"
    by (simp add: scenario_env_def)
  have z: "returncode \<lparr>returncode = 0,
           stdout = ''foo==1.0\<newline>bar==2.1\<newline>pip==23.0\<newline>'',
           stderr = []\<rparr> = 0" by simp
  have p: "parse_packages (stdout \<lparr>returncode = 0,
           stdout = ''foo==1.0\<newline>bar==2.1\<newline>pip==23.0\<newline>'',
           stderr = []\<rparr>) = [''foo'', ''bar'']" by code_simp
  have ne: "[''foo'', ''bar''] \<noteq> []" by simp
  have ret: "\<forall>(j, pkg) \<in> set (enumerate 1 [''foo'', ''bar'']).
      \<exists>r. pip_uninstall scenario_env j pkg = Inr r"
    by (simp add: scenario_env_def)
  have f: "failed_of scenario_env 1 [''foo'', ''bar''] = [''bar'']" by code_simp
  have n: "str_nat (length [''bar'']) = ''1''" by code_simp
  from completed_reports_failures [OF l z p ne ret] show ?thesis
    unfolding f n by simp
qed

text \<open>
  C4 as the claim states it fails. In the scenario of the specification (foo, bar and pip
  listed, the removal of bar failing) the failed name is bar, and the text of the
  Completed event is "Failed to uninstall 1 packages", which does not name it.
\<close>

theorem summary_names_failures_counterexample:
  "failed_of scenario_env 1 (parse_packages ''foo==1.0\<newline>bar==2.1\<newline>pip==23.0\<newline>'')
     = [''bar''] \<and>
   last (run scenario_env) = Emit (Completed False ''Failed to uninstall 1 packages'') \<and>
   \<not> in_str ''bar'' ''Failed to uninstall 1 packages''"
  by code_simp

end
